theory Spec2Isabelle
  imports Main "HOL-Library.Multiset" "HOL-Library.Char_ord" "HOL-Library.List_Lexorder"
begin

section \<open>The directory explorer of dokploy-mc\<close>

text \<open>
  A shallow embedding of \<^verbatim>\<open>src/lib/directory.ts\<close> (\<^verbatim>\<open>resolvePath\<close>,
  \<^verbatim>\<open>buildBreadcrumbs\<close>, \<^verbatim>\<open>readDirectory\<close>) and of the handler
  \<^verbatim>\<open>GET\<close> of \<^verbatim>\<open>src/app/api/directory/route.ts\<close>.

  Strings are \<^typ>\<open>string\<close>. The functions of Node's \<^verbatim>\<open>path\<close> module that the
  code calls (\<^verbatim>\<open>resolve\<close>, \<^verbatim>\<open>join\<close>, \<^verbatim>\<open>relative\<close>, \<^verbatim>\<open>basename\<close>) are modelled in
  their POSIX variant, where the separator is \<open>/\<close>; the base directory \<^verbatim>\<open>/dp-apps\<close> is
  a POSIX path. The file system and the collation of \<^verbatim>\<open>localeCompare\<close> belong to
  the environment and are parameters of the model.
\<close>

subsection \<open>Data model\<close>

datatype entry_type = File | Directory

record DirectoryEntry =
  name :: string
  relativePath :: string
  type :: entry_type
  size' :: nat
  modified :: string

record Breadcrumb =
  label :: string
  path :: string

record DirectorySnapshot =
  basePath :: string
  requestedPath :: string
  absolutePath :: string
  parentPath :: "string option"
  breadcrumbs :: "Breadcrumb list"
  entries :: "DirectoryEntry list"

definition BASE_DIRECTORY :: string where
  "BASE_DIRECTORY = ''/dp-apps''"

subsection \<open>String primitives of JavaScript\<close>

text \<open>\<^verbatim>\<open>s.split(sep)\<close> for a separator of one character: the pieces between the
  separators, empty pieces included; the empty string splits into one empty piece.\<close>

fun split :: "char \<Rightarrow> string \<Rightarrow> string list" where
  "split sep [] = [[]]"
| "split sep (c # cs) =
     (if c = sep then [] # split sep cs
      else (case split sep cs of
              [] \<Rightarrow> [[c]]
            | w # ws \<Rightarrow> (c # w) # ws))"

text \<open>\<^verbatim>\<open>s.startsWith(p)\<close>.\<close>

definition startsWith :: "string \<Rightarrow> string \<Rightarrow> bool" where
  "startsWith s p = (take (length p) s = p)"

text \<open>\<^verbatim>\<open>segments.join('/')\<close>.\<close>

fun join_segments :: "string list \<Rightarrow> string" where
  "join_segments [] = []"
| "join_segments [s] = s"
| "join_segments (s # t # ss) = s @ ''/'' @ join_segments (t # ss)"

subsection \<open>Node's \<^verbatim>\<open>path\<close> module (POSIX)\<close>

text \<open>
  \<^verbatim>\<open>normalizeString\<close> of Node's \<^verbatim>\<open>path\<close>, on the segments of the path: empty segments
  and \<open>.\<close> are dropped; \<open>..\<close> removes the segment before it, and where there is none
  it is kept for a relative path (\<open>allowAboveRoot\<close>) and dropped for an absolute one.
\<close>

fun normalizeString :: "bool \<Rightarrow> string list \<Rightarrow> string list \<Rightarrow> string list" where
  "normalizeString allowAboveRoot res [] = res"
| "normalizeString allowAboveRoot res (s # ss) =
     (if s = [] \<or> s = ''.'' then normalizeString allowAboveRoot res ss
      else if s = ''..'' then
        (if res = [] \<or> last res = ''..''
         then normalizeString allowAboveRoot
                (if allowAboveRoot then res @ [''..''] else res) ss
         else normalizeString allowAboveRoot (butlast res) ss)
      else normalizeString allowAboveRoot (res @ [s]) ss)"

text \<open>
  \<^verbatim>\<open>path.resolve(...args)\<close>: the arguments are taken from the right, empty ones
  skipped, up to and including the first absolute one; the concatenation is normalised
  as an absolute path. Every call site passes an absolute first argument, so the
  current working directory, which Node consults only when no argument is absolute,
  is not part of the model.
\<close>

fun resolve_concat :: "string list \<Rightarrow> string \<Rightarrow> string" where
  "resolve_concat [] acc = acc"
| "resolve_concat (p # ps) acc =
     (if p = [] then resolve_concat ps acc
      else if hd p = CHR ''/'' then p @ ''/'' @ acc
      else resolve_concat ps (p @ ''/'' @ acc))"

definition path_resolve :: "string list \<Rightarrow> string" where
  "path_resolve args =
     ''/'' @ join_segments
       (normalizeString False [] (split (CHR ''/'') (resolve_concat (rev args) [])))"

text \<open>\<^verbatim>\<open>path.normalize(p)\<close>: a trailing separator is kept.\<close>

definition path_normalize :: "string \<Rightarrow> string" where
  "path_normalize p =
     (if p = [] then ''.''
      else
        (let isAbsolute = (hd p = CHR ''/'');
             trailingSeparator = (last p = CHR ''/'');
             s = join_segments (normalizeString (\<not> isAbsolute) [] (split (CHR ''/'') p))
         in if s = [] then
              (if isAbsolute then ''/'' else if trailingSeparator then ''./'' else ''.'')
            else (if isAbsolute then ''/'' else []) @ s
                 @ (if trailingSeparator then ''/'' else [])))"

text \<open>\<^verbatim>\<open>path.join(...args)\<close>: the non-empty arguments joined by \<open>/\<close>, normalised.\<close>

definition path_join :: "string list \<Rightarrow> string" where
  "path_join args =
     (let joined = join_segments (filter (\<lambda>a. a \<noteq> []) args)
      in if joined = [] then ''.'' else path_normalize joined)"

text \<open>
  \<^verbatim>\<open>path.relative(from, to)\<close>: both paths are resolved; the segments they share at
  the front are dropped, each remaining segment of \<open>from\<close> becomes \<open>..\<close> and the
  remaining segments of \<open>to\<close> follow.
\<close>

fun drop_common :: "string list \<Rightarrow> string list \<Rightarrow> string list \<times> string list" where
  "drop_common (a # as) (b # bs) =
     (if a = b then drop_common as bs else (a # as, b # bs))"
| "drop_common as bs = (as, bs)"

definition path_relative :: "string \<Rightarrow> string \<Rightarrow> string" where
  "path_relative from to =
     (if from = to then []
      else
        (let f = normalizeString False [] (split (CHR ''/'') (tl (path_resolve [from])));
             t = normalizeString False [] (split (CHR ''/'') (tl (path_resolve [to])))
         in case drop_common f t of
              (f', t') \<Rightarrow> join_segments (replicate (length f') ''..'' @ t')))"

text \<open>\<^verbatim>\<open>path.basename(p)\<close>: the last non-empty segment, the empty string when there
  is none.\<close>

definition path_basename :: "string \<Rightarrow> string" where
  "path_basename p =
     (case filter (\<lambda>s. s \<noteq> []) (split (CHR ''/'') p) of
        [] \<Rightarrow> []
      | s # ss \<Rightarrow> last (s # ss))"

subsection \<open>Errors and the environment\<close>

text \<open>
  The code throws plain \<^verbatim>\<open>Error\<close> objects at two places: \<^verbatim>\<open>resolvePath\<close> throws the
  containment error, and the promises of \<^verbatim>\<open>fs.readdir\<close> and \<^verbatim>\<open>fs.stat\<close> reject with the
  file system's error, whose message Node composes. The two kinds are told apart by
  where they arise; \<open>message\<close> is the \<^verbatim>\<open>message\<close> property of the error object.
\<close>

datatype error = OutOfBoundsError | ReadError string

fun message :: "error \<Rightarrow> string" where
  "message OutOfBoundsError = ''Requested path is outside the allowed directory.''"
| "message (ReadError m) = m"

text \<open>
  The state of the file system, as the two calls of the code see it: \<open>readdir\<close> is
  \<^verbatim>\<open>fs.readdir(p, {withFileTypes: true})\<close> and \<open>stat\<close> is \<^verbatim>\<open>fs.stat(p)\<close>; \<open>Inl m\<close> is a
  rejection with an error of message \<open>m\<close>. Of a \<^verbatim>\<open>Stats\<close> object the code reads the size
  and \<^verbatim>\<open>mtime.toISOString()\<close>; \<open>stats_mtime\<close> is that ISO-8601 text.
\<close>

record Dirent =
  dirent_name :: string
  isDirectory :: bool

record Stats =
  stats_size :: nat
  stats_mtime :: string

record filesystem =
  readdir :: "string \<Rightarrow> string + Dirent list"
  stat :: "string \<Rightarrow> string + Stats"

subsection \<open>\<^verbatim>\<open>resolvePath\<close>\<close>

definition resolvePath :: "string \<Rightarrow> error + string" where
  "resolvePath requested =
     (let normalizedRequest = dropWhile (\<lambda>c. c = CHR ''/'') requested;
          targetPath = path_resolve [BASE_DIRECTORY, normalizedRequest]
      in if \<not> startsWith targetPath BASE_DIRECTORY then Inl OutOfBoundsError
         else Inr targetPath)"

subsection \<open>\<^verbatim>\<open>buildBreadcrumbs\<close>\<close>

text \<open>\<^verbatim>\<open>requestedPath.split('/').filter(Boolean)\<close>: the non-empty segments of the raw
  request.\<close>

definition segments_of :: "string \<Rightarrow> string list" where
  "segments_of requested = filter (\<lambda>s. s \<noteq> []) (split (CHR ''/'') requested)"

text \<open>The callback of \<^verbatim>\<open>reduce\<close>; the accumulator is the pair of \<^verbatim>\<open>pathAcc\<close> and
  \<^verbatim>\<open>breadcrumbs\<close>.\<close>

definition crumb_step :: "string \<times> Breadcrumb list \<Rightarrow> string \<Rightarrow> string \<times> Breadcrumb list" where
  "crumb_step acc segment =
     (let nextPath = (if fst acc = [] then segment else fst acc @ ''/'' @ segment)
      in (nextPath, snd acc @ [\<lparr>label = segment, path = nextPath\<rparr>]))"

definition buildBreadcrumbs :: "string \<Rightarrow> Breadcrumb list" where
  "buildBreadcrumbs requested =
     (let segments = segments_of requested;
          crumbs = [\<lparr>label = (if path_basename BASE_DIRECTORY = [] then BASE_DIRECTORY
                              else path_basename BASE_DIRECTORY),
                     path = []\<rparr>]
      in snd (foldl crumb_step ([], crumbs) segments))"

subsection \<open>Sorting the entries\<close>

text \<open>
  \<^verbatim>\<open>Array.prototype.sort(comparefn)\<close> is a stable sort: where the comparator is
  consistent there is one stable sorted arrangement of the array, and it is the
  result. The model computes it by stable insertion: an element goes before the
  first one it does not compare greater than, and the array is built from its end.
\<close>

fun insert_sorted :: "('a \<Rightarrow> 'a \<Rightarrow> int) \<Rightarrow> 'a \<Rightarrow> 'a list \<Rightarrow> 'a list" where
  "insert_sorted cmp x [] = [x]"
| "insert_sorted cmp x (y # ys) =
     (if cmp x y \<le> 0 then x # y # ys else y # insert_sorted cmp x ys)"

fun array_sort :: "('a \<Rightarrow> 'a \<Rightarrow> int) \<Rightarrow> 'a list \<Rightarrow> 'a list" where
  "array_sort cmp [] = []"
| "array_sort cmp (x # xs) = insert_sorted cmp x (array_sort cmp xs)"

text \<open>The comparator of \<^verbatim>\<open>entries.sort\<close>; \<open>localeCompare\<close> is the collation of the
  runtime's default locale, negative when its first argument sorts first.\<close>

definition compareEntries ::
  "(string \<Rightarrow> string \<Rightarrow> int) \<Rightarrow> DirectoryEntry \<Rightarrow> DirectoryEntry \<Rightarrow> int" where
  "compareEntries localeCompare a b =
     (if type a \<noteq> type b then (if type a = Directory then - 1 else 1)
      else localeCompare (name a) (name b))"

subsection \<open>\<^verbatim>\<open>readDirectory\<close>\<close>

text \<open>The body of the \<^verbatim>\<open>dirents.map\<close> callback: one entry from one child.\<close>

definition toEntry :: "filesystem \<Rightarrow> string \<Rightarrow> Dirent \<Rightarrow> string + DirectoryEntry" where
  "toEntry fs absolute dirent =
     (let entryPath = path_join [absolute, dirent_name dirent]
      in case stat fs entryPath of
           Inl m \<Rightarrow> Inl m
         | Inr stats \<Rightarrow>
             Inr \<lparr>name = dirent_name dirent,
                  relativePath = path_relative BASE_DIRECTORY entryPath,
                  type = (if isDirectory dirent then Directory else File),
                  size' = stats_size stats,
                  modified = stats_mtime stats\<rparr>)"

text \<open>
  \<^verbatim>\<open>Promise.all\<close>: the results in the order of the array when every promise
  fulfils, a rejection when one rejects. When several reject, the first in the order
  of the array stands for the one that rejects first in time.
\<close>

fun promise_all :: "('a \<Rightarrow> string + 'b) \<Rightarrow> 'a list \<Rightarrow> string + 'b list" where
  "promise_all f [] = Inr []"
| "promise_all f (x # xs) =
     (case f x of
        Inl m \<Rightarrow> Inl m
      | Inr y \<Rightarrow> (case promise_all f xs of Inl m \<Rightarrow> Inl m | Inr ys \<Rightarrow> Inr (y # ys)))"

text \<open>In the definitions below \<open>requested\<close>, \<open>absolute\<close>, \<open>crumbs\<close>, \<open>parent\<close> and
  \<open>sorted_entries\<close> are the source's variables \<^verbatim>\<open>requestedPath\<close>, \<^verbatim>\<open>absolutePath\<close>,
  \<^verbatim>\<open>breadcrumbs\<close>, \<^verbatim>\<open>parentPath\<close> and \<^verbatim>\<open>entries\<close>, whose names are the fields of the
  snapshot here.\<close>

text \<open>Lines 57 to 72: the children of the directory with their metadata, in the
  order of the listing.\<close>

definition listEntries :: "filesystem \<Rightarrow> string \<Rightarrow> string + DirectoryEntry list" where
  "listEntries fs absolute =
     (case readdir fs absolute of
        Inl m \<Rightarrow> Inl m
      | Inr dirents \<Rightarrow> promise_all (toEntry fs absolute) dirents)"

definition readDirectory ::
  "(string \<Rightarrow> string \<Rightarrow> int) \<Rightarrow> filesystem \<Rightarrow> string \<Rightarrow> error + DirectorySnapshot" where
  "readDirectory localeCompare fs requested =
     (case resolvePath requested of
        Inl e \<Rightarrow> Inl e
      | Inr absolute \<Rightarrow>
          (case listEntries fs absolute of
             Inl m \<Rightarrow> Inl (ReadError m)
           | Inr listed \<Rightarrow>
               (let sorted_entries = array_sort (compareEntries localeCompare) listed;
                    crumbs = buildBreadcrumbs requested;
                    parent =
                      (if length crumbs > 1
                       then Some (path (crumbs ! (length crumbs - 2)))
                       else None)
                in Inr \<lparr>basePath = BASE_DIRECTORY,
                        requestedPath = requested,
                        absolutePath = absolute,
                        parentPath = parent,
                        breadcrumbs = crumbs,
                        entries = sorted_entries\<rparr>)))"

subsection \<open>The handler \<^verbatim>\<open>GET\<close>\<close>

datatype body = SnapshotBody DirectorySnapshot | ErrorBody string

record response =
  status :: nat
  body :: body

text \<open>
  The argument is \<^verbatim>\<open>searchParams.get("path")\<close>, \<open>None\<close> for \<^verbatim>\<open>null\<close>. Whatever
  \<^verbatim>\<open>readDirectory\<close> throws is an \<^verbatim>\<open>Error\<close> object, so the handler answers with its
  \<^verbatim>\<open>message\<close>; the text \<^verbatim>\<open>Unable to read the requested directory.\<close> is for a thrown
  value that is no \<^verbatim>\<open>Error\<close>, which \<^verbatim>\<open>readDirectory\<close> has none of.
\<close>

definition GET :: "(string \<Rightarrow> string \<Rightarrow> int) \<Rightarrow> filesystem \<Rightarrow> string option \<Rightarrow> response" where
  "GET localeCompare fs param =
     (let requested = (case param of None \<Rightarrow> [] | Some p \<Rightarrow> p)
      in case readDirectory localeCompare fs requested of
           Inr snapshot \<Rightarrow> \<lparr>status = 200, body = SnapshotBody snapshot\<rparr>
         | Inl e \<Rightarrow> \<lparr>status = 400, body = ErrorBody (message e)\<rparr>)"

subsection \<open>Notions of the specification\<close>

text \<open>
  The containment the specification asks for, in its words: the resolved path equals
  the base directory, or starts with the base directory followed by a separator.
\<close>

definition spec_inside_base :: "string \<Rightarrow> bool" where
  "spec_inside_base p = (p = BASE_DIRECTORY \<or> startsWith p (BASE_DIRECTORY @ ''/''))"

text \<open>
  The resolved path of the specification: the request without its leading separators,
  joined to the base directory and normalised.
\<close>

definition spec_resolved :: "string \<Rightarrow> string" where
  "spec_resolved p = path_resolve [BASE_DIRECTORY, dropWhile (\<lambda>c. c = CHR ''/'') p]"

text \<open>
  A consistent comparator in the sense of ECMAScript: the signs of \<open>cmp a b\<close> and
  \<open>cmp b a\<close> are opposite, and ``not greater'' is transitive. It is what
  \<^verbatim>\<open>Array.prototype.sort\<close> asks of its argument, and what a collation gives.
\<close>

definition consistent_comparator :: "('a \<Rightarrow> 'a \<Rightarrow> int) \<Rightarrow> bool" where
  "consistent_comparator cmp =
     ((\<forall>a b. (cmp a b < 0) = (0 < cmp b a)) \<and>
      (\<forall>a b c. cmp a b \<le> 0 \<longrightarrow> cmp b c \<le> 0 \<longrightarrow> cmp a c \<le> 0))"

text \<open>\<^verbatim>\<open>s.includes(sub)\<close>: \<open>sub\<close> occurs in \<open>s\<close>.\<close>

fun str_includes :: "string \<Rightarrow> string \<Rightarrow> bool" where
  "str_includes [] sub = (sub = [])"
| "str_includes (c # cs) sub = (startsWith (c # cs) sub \<or> str_includes cs sub)"

subsection \<open>A sample environment\<close>

text \<open>A collation for the examples: the order of the character codes.\<close>

definition codeUnitCompare :: "string \<Rightarrow> string \<Rightarrow> int" where
  "codeUnitCompare a b = (if a < b then - 1 else if a = b then 0 else 1)"

text \<open>The message of Node's error for a path that does not exist.\<close>

definition enoent :: "string \<Rightarrow> string \<Rightarrow> string" where
  "enoent syscall p =
     ''ENOENT: no such file or directory, '' @ syscall @ '' '' @ [CHR 0x27] @ p @ [CHR 0x27]"

definition sample_stats :: Stats where
  "sample_stats = \<lparr>stats_size = 0, stats_mtime = ''2024-01-01T00:00:00.000Z''\<rparr>"

text \<open>
  A file system: the base directory lists \<open>b.txt\<close>, \<open>A\<close>, \<open>a.txt\<close>, \<open>B\<close> in this
  order, \<open>A\<close> and \<open>B\<close> directories; \<open>A\<close> holds the empty directory \<open>inner\<close>;
  \<open>B\<close> lists a file whose metadata cannot be read; beside the base directory
  lies \<open>/dp-apps-evil\<close>. Nothing else exists.
\<close>

definition sample_fs :: filesystem where
  "sample_fs =
     \<lparr>readdir = (\<lambda>p.
        if p = ''/dp-apps'' then
          Inr [\<lparr>dirent_name = ''b.txt'', isDirectory = False\<rparr>,
               \<lparr>dirent_name = ''A'', isDirectory = True\<rparr>,
               \<lparr>dirent_name = ''a.txt'', isDirectory = False\<rparr>,
               \<lparr>dirent_name = ''B'', isDirectory = True\<rparr>]
        else if p = ''/dp-apps/A'' then Inr [\<lparr>dirent_name = ''inner'', isDirectory = True\<rparr>]
        else if p = ''/dp-apps/A/inner'' then Inr []
        else if p = ''/dp-apps/B'' then Inr [\<lparr>dirent_name = ''gone.txt'', isDirectory = False\<rparr>]
        else if p = ''/dp-apps-evil'' then
          Inr [\<lparr>dirent_name = ''secret.txt'', isDirectory = False\<rparr>]
        else Inl (enoent ''scandir'' p)),
      stat = (\<lambda>p. if p = ''/dp-apps/B/gone.txt'' then Inl (enoent ''stat'' p)
                  else Inr sample_stats)\<rparr>"

text \<open>A file system in which nothing exists.\<close>

definition empty_fs :: filesystem where
  "empty_fs = \<lparr>readdir = (\<lambda>p. Inl (enoent ''scandir'' p)),
               stat = (\<lambda>p. Inl (enoent ''stat'' p))\<rparr>"

text \<open>The entry of a child of the sample file system.\<close>

definition sample_entry :: "string \<Rightarrow> string \<Rightarrow> entry_type \<Rightarrow> DirectoryEntry" where
  "sample_entry n rel t =
     \<lparr>name = n, relativePath = rel, type = t, size' = 0,
      modified = ''2024-01-01T00:00:00.000Z''\<rparr>"

text \<open>The snapshot of the base directory of the sample file system.\<close>

definition sample_root :: DirectorySnapshot where
  "sample_root =
     \<lparr>basePath = ''/dp-apps'', requestedPath = [], absolutePath = ''/dp-apps'',
      parentPath = None,
      breadcrumbs = [\<lparr>label = ''dp-apps'', path = []\<rparr>],
      entries = [sample_entry ''A'' ''A'' Directory, sample_entry ''B'' ''B'' Directory,
                 sample_entry ''a.txt'' ''a.txt'' File, sample_entry ''b.txt'' ''b.txt'' File]\<rparr>"

section \<open>Auxiliary facts\<close>

subsection \<open>The stable sort\<close>

lemma mset_insert_sorted: "mset (insert_sorted cmp x xs) = add_mset x (mset xs)"
  by (induction xs) auto

lemma mset_array_sort: "mset (array_sort cmp xs) = mset xs"
  by (induction xs) (auto simp: mset_insert_sorted)

lemma set_insert_sorted: "set (insert_sorted cmp x xs) = insert x (set xs)"
  by (induction xs) auto

lemma comparator_total:
  "consistent_comparator cmp \<Longrightarrow> \<not> cmp x y \<le> 0 \<Longrightarrow> cmp y x \<le> 0"
  unfolding consistent_comparator_def
  by (metis linorder_not_le order_less_imp_le)

lemma comparator_trans:
  "consistent_comparator cmp \<Longrightarrow> cmp x y \<le> 0 \<Longrightarrow> cmp y z \<le> 0 \<Longrightarrow> cmp x z \<le> 0"
  unfolding consistent_comparator_def by blast

lemma comparator_sym_zero:
  "consistent_comparator cmp \<Longrightarrow> cmp x y = 0 \<Longrightarrow> cmp y x = 0"
  unfolding consistent_comparator_def
  by (metis less_irrefl linorder_neqE_linordered_idom)

lemma sorted_insert_sorted:
  assumes "consistent_comparator cmp" and "sorted_wrt (\<lambda>a b. cmp a b \<le> 0) xs"
  shows "sorted_wrt (\<lambda>a b. cmp a b \<le> 0) (insert_sorted cmp x xs)"
  using assms(2)
proof (induction xs)
  case Nil
  then show ?case by simp
next
  case (Cons y ys)
  show ?case
  proof (cases "cmp x y \<le> 0")
    case True
    with Cons.prems show ?thesis
      using comparator_trans [OF assms(1)] by auto
  next
    case False
    with Cons show ?thesis
      using comparator_total [OF assms(1)] by (auto simp: set_insert_sorted)
  qed
qed

lemma sorted_array_sort:
  "consistent_comparator cmp \<Longrightarrow> sorted_wrt (\<lambda>a b. cmp a b \<le> 0) (array_sort cmp xs)"
  by (induction xs) (auto intro: sorted_insert_sorted)

text \<open>Stability: an element goes in front of the elements it compares equal to, and
  behind none of them.\<close>

lemma filter_insert_sorted:
  assumes "consistent_comparator cmp"
  shows "filter (\<lambda>y. cmp k y = 0) (insert_sorted cmp x xs) =
         (if cmp k x = 0 then x # filter (\<lambda>y. cmp k y = 0) xs
          else filter (\<lambda>y. cmp k y = 0) xs)"
proof (induction xs)
  case Nil
  then show ?case by simp
next
  case (Cons y ys)
  have "cmp k x = 0 \<Longrightarrow> cmp k y = 0 \<Longrightarrow> cmp x y \<le> 0"
    using comparator_sym_zero [OF assms, of k x] comparator_trans [OF assms, of x k y]
    by simp
  with Cons show ?case by auto
qed

lemma array_sort_stable:
  "consistent_comparator cmp \<Longrightarrow>
   filter (\<lambda>y. cmp k y = 0) (array_sort cmp xs) = filter (\<lambda>y. cmp k y = 0) xs"
  by (induction xs) (auto simp: filter_insert_sorted)

text \<open>
  The model of \<^verbatim>\<open>Array.prototype.sort\<close> is no choice among several results: for a
  consistent comparator a sorted arrangement that keeps the order of equal elements is
  unique, so every stable sort returns what \<open>array_sort\<close> returns.
\<close>

lemma comparator_refl:
  assumes "consistent_comparator cmp"
  shows "cmp x x = 0"
proof -
  have "(cmp x x < 0) = (0 < cmp x x)"
    using assms unfolding consistent_comparator_def by blast
  then show ?thesis by arith
qed

lemma comparator_antisym:
  assumes "consistent_comparator cmp" and "cmp x y \<le> 0" and "cmp y x \<le> 0"
  shows "cmp x y = 0"
proof -
  have "(cmp x y < 0) = (0 < cmp y x)"
    using assms(1) unfolding consistent_comparator_def by blast
  with assms(2,3) show ?thesis by arith
qed

lemma stable_sorted_unique:
  assumes c: "consistent_comparator cmp"
  shows "sorted_wrt (\<lambda>a b. cmp a b \<le> 0) ys \<Longrightarrow> sorted_wrt (\<lambda>a b. cmp a b \<le> 0) zs \<Longrightarrow>
         \<forall>k. filter (\<lambda>y. cmp k y = 0) ys = filter (\<lambda>y. cmp k y = 0) zs \<Longrightarrow>
         mset ys = mset zs \<Longrightarrow> ys = zs"
proof (induction ys arbitrary: zs)
  case Nil
  then show ?case by simp
next
  case (Cons y ys)
  from Cons.prems(4) obtain z zs' where zs: "zs = z # zs'"
    by (cases zs) auto
  have yz: "y = z"
  proof (rule ccontr)
    assume ne: "y \<noteq> z"
    have "set (y # ys) = set zs"
      using Cons.prems(4) by (rule mset_eq_setD)
    then have "y \<in> set zs" "z \<in> set (y # ys)"
      using zs by auto
    with ne zs have "y \<in> set zs'" "z \<in> set ys" by auto
    with Cons.prems(1,2) zs have "cmp z y \<le> 0" "cmp y z \<le> 0" by auto
    then have "cmp y z = 0" by (intro comparator_antisym [OF c])
    moreover have "cmp y y = 0" by (rule comparator_refl [OF c])
    ultimately have "filter (\<lambda>x. cmp y x = 0) (y # ys) = y # filter (\<lambda>x. cmp y x = 0) ys"
      and "filter (\<lambda>x. cmp y x = 0) zs = z # filter (\<lambda>x. cmp y x = 0) zs'"
      using zs by simp_all
    moreover have "filter (\<lambda>x. cmp y x = 0) (y # ys) = filter (\<lambda>x. cmp y x = 0) zs"
      using Cons.prems(3) by blast
    ultimately have "y = z" by simp
    with ne show False by simp
  qed
  have "\<forall>k. filter (\<lambda>x. cmp k x = 0) ys = filter (\<lambda>x. cmp k x = 0) zs'"
  proof
    fix k
    from Cons.prems(3) have "filter (\<lambda>x. cmp k x = 0) (y # ys) = filter (\<lambda>x. cmp k x = 0) (y # zs')"
      unfolding zs yz by blast
    then show "filter (\<lambda>x. cmp k x = 0) ys = filter (\<lambda>x. cmp k x = 0) zs'"
      by (simp split: if_splits)
  qed
  moreover have "mset ys = mset zs'" using Cons.prems(4) zs yz by simp
  moreover have "sorted_wrt (\<lambda>a b. cmp a b \<le> 0) ys" "sorted_wrt (\<lambda>a b. cmp a b \<le> 0) zs'"
    using Cons.prems(1,2) zs by simp_all
  ultimately have "ys = zs'" by (intro Cons.IH)
  with zs yz show ?case by simp
qed

lemma array_sort_unique:
  assumes "consistent_comparator cmp"
    and "sorted_wrt (\<lambda>a b. cmp a b \<le> 0) ys"
    and "\<forall>k. filter (\<lambda>y. cmp k y = 0) ys = filter (\<lambda>y. cmp k y = 0) xs"
    and "mset ys = mset xs"
  shows "ys = array_sort cmp xs"
  using assms(1,2) sorted_array_sort [OF assms(1)]
proof (rule stable_sorted_unique)
  show "\<forall>k. filter (\<lambda>y. cmp k y = 0) ys = filter (\<lambda>y. cmp k y = 0) (array_sort cmp xs)"
    using assms(3) array_sort_stable [OF assms(1)] by simp
  show "mset ys = mset (array_sort cmp xs)"
    using assms(4) by (simp add: mset_array_sort)
qed

lemma consistent_compareEntries:
  assumes "consistent_comparator lc"
  shows "consistent_comparator (compareEntries lc)"
proof -
  have a: "\<And>a b. (lc a b < 0) = (0 < lc b a)"
    using assms unfolding consistent_comparator_def by blast
  have t: "\<And>a b c. lc a b \<le> 0 \<Longrightarrow> lc b c \<le> 0 \<Longrightarrow> lc a c \<le> 0"
    using assms unfolding consistent_comparator_def by blast
  have e: "\<And>x y :: entry_type. x \<noteq> Directory \<Longrightarrow> y \<noteq> Directory \<Longrightarrow> x = y"
    by (metis entry_type.exhaust)
  show ?thesis
    unfolding consistent_comparator_def compareEntries_def
    using a t e by (auto split: if_splits)
qed

lemma consistent_codeUnitCompare: "consistent_comparator codeUnitCompare"
  unfolding consistent_comparator_def codeUnitCompare_def
  by (auto split: if_splits)

subsection \<open>Segments and breadcrumbs\<close>

lemma join_segments_snoc:
  "xs \<noteq> [] \<Longrightarrow> join_segments (xs @ [s]) = join_segments xs @ ''/'' @ s"
  by (induction xs rule: join_segments.induct) auto

lemma join_segments_eq_Nil:
  "\<forall>s\<in>set xs. s \<noteq> [] \<Longrightarrow> (join_segments xs = []) = (xs = [])"
  by (induction xs rule: join_segments.induct) auto

lemma crumb_step_pair:
  "crumb_step (pa, cs) s =
     ((if pa = [] then s else pa @ ''/'' @ s),
      cs @ [\<lparr>label = s, path = (if pa = [] then s else pa @ ''/'' @ s)\<rparr>])"
  by (simp add: crumb_step_def Let_def)

lemma foldl_crumb_step:
  assumes "\<forall>s\<in>set segs. s \<noteq> []"
  shows "foldl crumb_step ([], cs) segs =
           (join_segments segs,
            cs @ map (\<lambda>k. \<lparr>label = segs ! k, path = join_segments (take (Suc k) segs)\<rparr>)
                   [0..<length segs])"
  using assms
proof (induction segs rule: rev_induct)
  case Nil
  then show ?case by simp
next
  case (snoc s segs)
  let ?f = "\<lambda>xs k. \<lparr>label = xs ! k, path = join_segments (take (Suc k) xs)\<rparr>"
  have ne: "\<forall>s\<in>set segs. s \<noteq> []" using snoc.prems by simp
  have m: "map (?f (segs @ [s])) [0..<length segs] = map (?f segs) [0..<length segs]"
    by (rule map_cong) (auto simp: nth_append)
  have last: "?f (segs @ [s]) (length segs) = \<lparr>label = s, path = join_segments (segs @ [s])\<rparr>"
    by simp
  have j: "(if join_segments segs = [] then s else join_segments segs @ ''/'' @ s) =
           join_segments (segs @ [s])"
  proof (cases "segs = []")
    case True
    then show ?thesis by simp
  next
    case False
    then have "join_segments segs \<noteq> []"
      using join_segments_eq_Nil [OF ne] by simp
    then show ?thesis using False by (simp add: join_segments_snoc)
  qed
  have "foldl crumb_step ([], cs) (segs @ [s]) =
        crumb_step (join_segments segs, cs @ map (?f segs) [0..<length segs]) s"
    using snoc.IH [OF ne] by simp
  also have "\<dots> = (join_segments (segs @ [s]),
                     cs @ map (?f segs) [0..<length segs]
                        @ [\<lparr>label = s, path = join_segments (segs @ [s])\<rparr>])"
    unfolding crumb_step_pair j by simp
  also have "map (?f segs) [0..<length segs] @ [\<lparr>label = s, path = join_segments (segs @ [s])\<rparr>]
             = map (?f (segs @ [s])) [0..<length (segs @ [s])]"
    unfolding m [symmetric] last [symmetric] by simp
  finally show ?case .
qed

lemma basename_BASE: "path_basename BASE_DIRECTORY = ''dp-apps''"
  by (simp add: path_basename_def BASE_DIRECTORY_def)

lemma buildBreadcrumbs_eq:
  "buildBreadcrumbs p =
     \<lparr>label = ''dp-apps'', path = []\<rparr> #
     map (\<lambda>k. \<lparr>label = segments_of p ! k,
               path = join_segments (take (Suc k) (segments_of p))\<rparr>)
       [0..<length (segments_of p)]"
  by (simp add: buildBreadcrumbs_def basename_BASE foldl_crumb_step segments_of_def)

lemma length_buildBreadcrumbs: "length (buildBreadcrumbs p) = Suc (length (segments_of p))"
  by (simp add: buildBreadcrumbs_eq)

lemma segments_Nil_dropWhile:
  "filter (\<lambda>s. s \<noteq> []) (split sep p) = [] \<Longrightarrow> dropWhile (\<lambda>c. c = sep) p = []"
  by (induction p) (auto split: list.splits if_splits)

lemma resolve_base: "path_resolve [BASE_DIRECTORY, []] = BASE_DIRECTORY"
  by (simp add: path_resolve_def BASE_DIRECTORY_def)

lemma resolvePath_no_segments:
  assumes "segments_of p = []"
  shows "resolvePath p = Inr BASE_DIRECTORY"
proof -
  have "dropWhile (\<lambda>c. c = CHR ''/'') p = []"
    using assms unfolding segments_of_def by (rule segments_Nil_dropWhile)
  then have "resolvePath p =
      (if \<not> startsWith (path_resolve [BASE_DIRECTORY, []]) BASE_DIRECTORY
       then Inl OutOfBoundsError else Inr (path_resolve [BASE_DIRECTORY, []]))"
    unfolding resolvePath_def Let_def by (rule arg_cong)
  then show ?thesis
    unfolding resolve_base by (simp add: startsWith_def)
qed

subsection \<open>The outcomes of \<^verbatim>\<open>readDirectory\<close>\<close>

lemma readDirectory_Inr:
  assumes "readDirectory lc fs p = Inr s"
  obtains a listed where "resolvePath p = Inr a" and "listEntries fs a = Inr listed"
    and "s = \<lparr>basePath = BASE_DIRECTORY, requestedPath = p, absolutePath = a,
              parentPath = (if 1 < length (buildBreadcrumbs p)
                            then Some (path (buildBreadcrumbs p ! (length (buildBreadcrumbs p) - 2)))
                            else None),
              breadcrumbs = buildBreadcrumbs p,
              entries = array_sort (compareEntries lc) listed\<rparr>"
  using assms by (auto simp: readDirectory_def Let_def split: sum.splits)

lemma readDirectory_success:
  assumes "resolvePath p = Inr a" and "listEntries fs a = Inr listed"
  shows "readDirectory lc fs p =
           Inr \<lparr>basePath = BASE_DIRECTORY, requestedPath = p, absolutePath = a,
              parentPath = (if 1 < length (buildBreadcrumbs p)
                            then Some (path (buildBreadcrumbs p ! (length (buildBreadcrumbs p) - 2)))
                            else None),
              breadcrumbs = buildBreadcrumbs p,
              entries = array_sort (compareEntries lc) listed\<rparr>"
  using assms by (simp add: readDirectory_def Let_def)

lemma readDirectory_ReadError:
  assumes "readDirectory lc fs p = Inl (ReadError m)"
  obtains a where "resolvePath p = Inr a" and "listEntries fs a = Inl m"
  using assms
  by (auto simp: readDirectory_def resolvePath_def Let_def split: sum.splits if_splits)

lemma promise_all_Inr:
  "promise_all f xs = Inr ys \<Longrightarrow> list_all2 (\<lambda>x y. f x = Inr y) xs ys"
  by (induction xs arbitrary: ys) (auto split: sum.splits)

lemma promise_all_Inl:
  "x \<in> set xs \<Longrightarrow> f x = Inl m \<Longrightarrow> \<exists>m'. promise_all f xs = Inl m'"
  by (induction xs) (auto split: sum.splits)

lemma promise_all_Inl_source:
  "promise_all f xs = Inl m \<Longrightarrow> \<exists>x\<in>set xs. f x = Inl m"
  by (induction xs) (auto split: sum.splits)

lemma toEntry_Inr:
  assumes "toEntry fs a d = Inr e"
  shows "name e = dirent_name d"
    and "relativePath e = path_relative BASE_DIRECTORY (path_join [a, dirent_name d])"
    and "type e = (if isDirectory d then Directory else File)"
  using assms by (auto simp: toEntry_def Let_def split: sum.splits)

lemma toEntry_Inl:
  "toEntry fs a d = Inl m \<longleftrightarrow> stat fs (path_join [a, dirent_name d]) = Inl m"
  by (auto simp: toEntry_def Let_def split: sum.splits)

lemma listEntries_Inr:
  assumes "listEntries fs a = Inr listed"
  obtains ds where "readdir fs a = Inr ds"
    and "list_all2 (\<lambda>d e. toEntry fs a d = Inr e) ds listed"
  using assms by (auto simp: listEntries_def split: sum.splits dest: promise_all_Inr)

lemma listEntries_Inl:
  assumes "listEntries fs a = Inl m"
  shows "readdir fs a = Inl m \<or>
         (\<exists>ds. readdir fs a = Inr ds \<and>
           (\<exists>d\<in>set ds. stat fs (path_join [a, dirent_name d]) = Inl m))"
proof (cases "readdir fs a")
  case (Inl m')
  with assms show ?thesis by (simp add: listEntries_def)
next
  case (Inr ds)
  with assms have "promise_all (toEntry fs a) ds = Inl m"
    by (simp add: listEntries_def)
  then obtain d where "d \<in> set ds" and "toEntry fs a d = Inl m"
    using promise_all_Inl_source by blast
  with Inr show ?thesis
    unfolding toEntry_Inl by blast
qed

lemma listed_projection:
  assumes "list_all2 (\<lambda>d e. toEntry fs a d = Inr e) ds listed"
  shows "map (\<lambda>e. (name e, relativePath e, type e)) listed =
         map (\<lambda>d. (dirent_name d,
                    path_relative BASE_DIRECTORY (path_join [a, dirent_name d]),
                    if isDirectory d then Directory else File)) ds"
  using assms by (induction rule: list_all2_induct) (auto simp: toEntry_Inr)

subsection \<open>The containment check\<close>

lemma startsWith_iff: "startsWith s p = (\<exists>r. s = p @ r)"
proof
  assume "startsWith s p"
  then have "s = p @ drop (length p) s"
    unfolding startsWith_def by (metis append_take_drop_id)
  then show "\<exists>r. s = p @ r" ..
next
  assume "\<exists>r. s = p @ r"
  then show "startsWith s p" by (auto simp: startsWith_def)
qed

lemma spec_inside_base_startsWith:
  "spec_inside_base p \<Longrightarrow> startsWith p BASE_DIRECTORY"
  unfolding spec_inside_base_def startsWith_iff by auto

lemma resolvePath_eq:
  "resolvePath p =
     (if startsWith (spec_resolved p) BASE_DIRECTORY then Inr (spec_resolved p)
      else Inl OutOfBoundsError)"
  by (simp add: resolvePath_def spec_resolved_def Let_def)

lemma resolvePath_inside:
  "spec_inside_base (spec_resolved p) \<Longrightarrow> resolvePath p = Inr (spec_resolved p)"
  by (simp add: resolvePath_eq spec_inside_base_startsWith)

text \<open>Where the check of the code fails, the outcome is the same in every file
  system.\<close>

lemma guard_failure_is_OutOfBoundsError:
  assumes "\<not> startsWith (spec_resolved p) BASE_DIRECTORY"
  shows "readDirectory lc fs p = Inl OutOfBoundsError"
  using assms by (simp add: readDirectory_def resolvePath_eq)

subsection \<open>The sample environment\<close>

lemma sample_root_snapshot: "readDirectory codeUnitCompare sample_fs [] = Inr sample_root"
  by code_simp

section \<open>The claims\<close>

subsection \<open>Containment\<close>

text \<open>
  Claim C1: the containment check rejects a resolved path that is a sibling of the base
  directory sharing its literal prefix, so that every returned \<open>absolutePath\<close> equals
  the base directory or starts with it followed by a separator.

  The code does not: its check is \<^verbatim>\<open>targetPath.startsWith(BASE_DIRECTORY)\<close>. The request
  \<^verbatim>\<open>../dp-apps-evil\<close> resolves to \<^verbatim>\<open>/dp-apps-evil\<close>, which is not inside the base
  directory, and \<open>resolvePath\<close> returns it.
\<close>

theorem resolvePath_accepts_sibling_prefix:
  "resolvePath ''../dp-apps-evil'' = Inr ''/dp-apps-evil'' \<and>
   \<not> spec_inside_base ''/dp-apps-evil''"
  by code_simp

text \<open>
  Claim C2: a request that normalises to a path outside the base directory fails with
  \<open>OutOfBoundsError\<close>.

  The code does not for \<^verbatim>\<open>../dp-apps-evil\<close>, which normalises to \<^verbatim>\<open>/dp-apps-evil\<close>: in
  no file system is the outcome \<open>OutOfBoundsError\<close>, and where the sibling directory
  exists its listing is returned. The defect is the one of claim C1.
\<close>

theorem readDirectory_lists_sibling_directory:
  "readDirectory codeUnitCompare sample_fs ''../dp-apps-evil'' =
     Inr \<lparr>basePath = ''/dp-apps'', requestedPath = ''../dp-apps-evil'',
          absolutePath = ''/dp-apps-evil'', parentPath = Some ''..'',
          breadcrumbs =
            [\<lparr>label = ''dp-apps'', path = []\<rparr>, \<lparr>label = ''..'', path = ''..''\<rparr>,
             \<lparr>label = ''dp-apps-evil'', path = ''../dp-apps-evil''\<rparr>],
          entries = [sample_entry ''secret.txt'' ''../dp-apps-evil/secret.txt'' File]\<rparr> \<and>
   readDirectory lc fs ''../dp-apps-evil'' \<noteq> Inl OutOfBoundsError"
proof
  show "readDirectory codeUnitCompare sample_fs ''../dp-apps-evil'' =
     Inr \<lparr>basePath = ''/dp-apps'', requestedPath = ''../dp-apps-evil'',
          absolutePath = ''/dp-apps-evil'', parentPath = Some ''..'',
          breadcrumbs =
            [\<lparr>label = ''dp-apps'', path = []\<rparr>, \<lparr>label = ''..'', path = ''..''\<rparr>,
             \<lparr>label = ''dp-apps-evil'', path = ''../dp-apps-evil''\<rparr>],
          entries = [sample_entry ''secret.txt'' ''../dp-apps-evil/secret.txt'' File]\<rparr>"
    by code_simp
  have "resolvePath ''../dp-apps-evil'' = Inr ''/dp-apps-evil''"
    by code_simp
  then show "readDirectory lc fs ''../dp-apps-evil'' \<noteq> Inl OutOfBoundsError"
    by (simp add: readDirectory_def Let_def split: sum.splits)
qed

subsection \<open>The handler\<close>

text \<open>
  Claim C3, as amended. A request whose resolved path lies outside the base directory
  and does not start with the base directory's string is answered with status 400 and
  the body \<open>{error: "Requested path is outside the allowed directory."}\<close>. A request
  whose resolved path is inside the base directory (it equals the base directory or
  starts with it followed by a separator) is answered

    \<^item> with status 400 and the body \<open>{error: m}\<close> when the directory cannot be read
      (path not found, not a directory, permission denied), \<open>m\<close> being the message
      of the file system's error, which may name the resolved path;
    \<^item> with status 400 and a body \<open>{error: string}\<close> when the metadata of one of the
      listed children cannot be read;
    \<^item> with status 200 and the snapshot as body when \<open>readDirectory\<close> succeeds.

  A request that resolves to a sibling of the base directory whose name starts with
  the base directory's is not covered.
\<close>

theorem GET_responses:
  assumes "requested = (case param of None \<Rightarrow> [] | Some p \<Rightarrow> p)"
    and "target = spec_resolved requested"
  shows "(\<not> spec_inside_base target \<and> \<not> startsWith target BASE_DIRECTORY \<longrightarrow>
            GET lc fs param =
              \<lparr>status = 400,
               body = ErrorBody ''Requested path is outside the allowed directory.''\<rparr>) \<and>
         (spec_inside_base target \<longrightarrow>
            (\<forall>m. readdir fs target = Inl m \<longrightarrow>
               GET lc fs param = \<lparr>status = 400, body = ErrorBody m\<rparr>) \<and>
            (\<forall>ds. readdir fs target = Inr ds \<and>
                  (\<exists>d\<in>set ds. \<exists>m. stat fs (path_join [target, dirent_name d]) = Inl m) \<longrightarrow>
               status (GET lc fs param) = 400 \<and>
               (\<exists>m. body (GET lc fs param) = ErrorBody m)) \<and>
            (\<forall>s. readDirectory lc fs requested = Inr s \<longrightarrow>
               GET lc fs param = \<lparr>status = 200, body = SnapshotBody s\<rparr>))"
proof (intro conjI allI impI)
  assume "\<not> spec_inside_base target \<and> \<not> startsWith target BASE_DIRECTORY"
  then have "readDirectory lc fs requested = Inl OutOfBoundsError"
    using assms(2) by (simp add: guard_failure_is_OutOfBoundsError)
  then show "GET lc fs param =
      \<lparr>status = 400, body = ErrorBody ''Requested path is outside the allowed directory.''\<rparr>"
    using assms(1) by (simp add: GET_def)
next
  fix m
  assume "spec_inside_base target" and "readdir fs target = Inl m"
  then have "resolvePath requested = Inr target" and "listEntries fs target = Inl m"
    using assms(2) by (simp_all add: resolvePath_inside listEntries_def)
  then have "readDirectory lc fs requested = Inl (ReadError m)"
    by (simp add: readDirectory_def)
  then show "GET lc fs param = \<lparr>status = 400, body = ErrorBody m\<rparr>"
    using assms(1) by (simp add: GET_def)
next
  fix ds
  assume inside: "spec_inside_base target"
    and child: "readdir fs target = Inr ds \<and>
                (\<exists>d\<in>set ds. \<exists>m. stat fs (path_join [target, dirent_name d]) = Inl m)"
  then obtain d m where d: "d \<in> set ds"
    and "stat fs (path_join [target, dirent_name d]) = Inl m" by blast
  then have "toEntry fs target d = Inl m" by (simp add: toEntry_Inl)
  with d have "\<exists>m'. promise_all (toEntry fs target) ds = Inl m'"
    by (rule promise_all_Inl)
  then obtain m' where "listEntries fs target = Inl m'"
    using child by (auto simp: listEntries_def)
  moreover have "resolvePath requested = Inr target"
    using inside assms(2) by (simp add: resolvePath_inside)
  ultimately have "readDirectory lc fs requested = Inl (ReadError m')"
    by (simp add: readDirectory_def)
  then have "GET lc fs param = \<lparr>status = 400, body = ErrorBody m'\<rparr>"
    using assms(1) by (simp add: GET_def)
  then show "status (GET lc fs param) = 400" and "\<exists>m. body (GET lc fs param) = ErrorBody m"
    by simp_all
next
  fix s
  assume "readDirectory lc fs requested = Inr s"
  then show "GET lc fs param = \<lparr>status = 200, body = SnapshotBody s\<rparr>"
    using assms(1) by (simp add: GET_def)
qed

theorem GET_responses_witness:
  "spec_resolved ''../../etc'' = ''/etc'' \<and> \<not> spec_inside_base ''/etc'' \<and>
   \<not> startsWith ''/etc'' BASE_DIRECTORY \<and>
   GET codeUnitCompare sample_fs (Some ''../../etc'') =
     \<lparr>status = 400, body = ErrorBody ''Requested path is outside the allowed directory.''\<rparr> \<and>
   spec_resolved ''missing'' = ''/dp-apps/missing'' \<and> spec_inside_base ''/dp-apps/missing'' \<and>
   readdir sample_fs ''/dp-apps/missing'' = Inl (enoent ''scandir'' ''/dp-apps/missing'') \<and>
   GET codeUnitCompare sample_fs (Some ''missing'') =
     \<lparr>status = 400, body = ErrorBody (enoent ''scandir'' ''/dp-apps/missing'')\<rparr> \<and>
   spec_resolved ''B'' = ''/dp-apps/B'' \<and> spec_inside_base ''/dp-apps/B'' \<and>
   readdir sample_fs ''/dp-apps/B'' = Inr [\<lparr>dirent_name = ''gone.txt'', isDirectory = False\<rparr>] \<and>
   stat sample_fs (path_join [''/dp-apps/B'', ''gone.txt'']) =
     Inl (enoent ''stat'' ''/dp-apps/B/gone.txt'') \<and>
   status (GET codeUnitCompare sample_fs (Some ''B'')) = 400 \<and>
   (\<exists>m. body (GET codeUnitCompare sample_fs (Some ''B'')) = ErrorBody m) \<and>
   spec_resolved [] = ''/dp-apps'' \<and> spec_inside_base ''/dp-apps'' \<and>
   readDirectory codeUnitCompare sample_fs [] = Inr sample_root \<and>
   GET codeUnitCompare sample_fs None = \<lparr>status = 200, body = SnapshotBody sample_root\<rparr>"
proof -
  have etc: "spec_resolved ''../../etc'' = ''/etc''" "\<not> spec_inside_base ''/etc''"
    "\<not> startsWith ''/etc'' BASE_DIRECTORY"
    by code_simp+
  have missing: "spec_resolved ''missing'' = ''/dp-apps/missing''"
    "spec_inside_base ''/dp-apps/missing''"
    "readdir sample_fs ''/dp-apps/missing'' = Inl (enoent ''scandir'' ''/dp-apps/missing'')"
    by code_simp+
  have b: "spec_resolved ''B'' = ''/dp-apps/B''" "spec_inside_base ''/dp-apps/B''"
    "readdir sample_fs ''/dp-apps/B'' = Inr [\<lparr>dirent_name = ''gone.txt'', isDirectory = False\<rparr>]"
    "stat sample_fs (path_join [''/dp-apps/B'', ''gone.txt'']) =
       Inl (enoent ''stat'' ''/dp-apps/B/gone.txt'')"
    by code_simp+
  have root: "spec_resolved [] = ''/dp-apps''" "spec_inside_base ''/dp-apps''"
    by code_simp+
  have child: "readdir sample_fs ''/dp-apps/B'' =
                 Inr [\<lparr>dirent_name = ''gone.txt'', isDirectory = False\<rparr>] \<and>
               (\<exists>d\<in>set [\<lparr>dirent_name = ''gone.txt'', isDirectory = False\<rparr>].
                  \<exists>m. stat sample_fs (path_join [''/dp-apps/B'', dirent_name d]) = Inl m)"
    using b(3,4) by simp
  have r1: "GET codeUnitCompare sample_fs (Some ''../../etc'') =
     \<lparr>status = 400, body = ErrorBody ''Requested path is outside the allowed directory.''\<rparr>"
    using GET_responses [of "''../../etc''" "Some ''../../etc''" "''/etc''" codeUnitCompare sample_fs]
      etc by simp
  have r2: "GET codeUnitCompare sample_fs (Some ''missing'') =
     \<lparr>status = 400, body = ErrorBody (enoent ''scandir'' ''/dp-apps/missing'')\<rparr>"
    using GET_responses [of "''missing''" "Some ''missing''" "''/dp-apps/missing''"
        codeUnitCompare sample_fs]
      missing by simp
  have r3: "status (GET codeUnitCompare sample_fs (Some ''B'')) = 400 \<and>
            (\<exists>m. body (GET codeUnitCompare sample_fs (Some ''B'')) = ErrorBody m)"
  proof -
    have p: "''B'' = (case Some ''B'' of None \<Rightarrow> [] | Some p \<Rightarrow> p)" by simp
    note t = GET_responses [OF p b(1) [symmetric], of codeUnitCompare sample_fs]
    show ?thesis
      by (rule t [THEN conjunct2, THEN mp, OF b(2), THEN conjunct2, THEN conjunct1,
                  THEN spec, THEN mp, OF child])
  qed
  have r4: "GET codeUnitCompare sample_fs None = \<lparr>status = 200, body = SnapshotBody sample_root\<rparr>"
    using GET_responses [of "[]" None "''/dp-apps''" codeUnitCompare sample_fs]
      root sample_root_snapshot by simp
  show ?thesis
    using etc missing b root sample_root_snapshot r1 r2 r3 r4 by (intro conjI) blast+
qed

text \<open>
  Claim C3 as stated fails: the error string is not a generic message free of internal
  paths. For a directory that does not exist the body carries the message of Node's
  error, which names the resolved absolute path.
\<close>

theorem GET_error_names_resolved_path:
  "GET codeUnitCompare sample_fs (Some ''missing'') =
     \<lparr>status = 400,
      body = ErrorBody (''ENOENT: no such file or directory, scandir ''
                        @ [CHR 0x27] @ ''/dp-apps/missing'' @ [CHR 0x27])\<rparr> \<and>
   str_includes (''ENOENT: no such file or directory, scandir ''
                 @ [CHR 0x27] @ ''/dp-apps/missing'' @ [CHR 0x27]) ''/dp-apps/missing''"
  by code_simp

subsection \<open>Navigation\<close>

text \<open>
  Claim C4, as amended: in every snapshot \<open>parentPath\<close> is null exactly when the raw
  requested path has no non-empty segment, and the request then resolves to the base
  directory; otherwise it is the path of the second-to-last breadcrumb, which is the
  request's segments but the last, joined by \<open>/\<close>. For the request \<open>""\<close> it is null.
\<close>

theorem parentPath_null_iff_no_segments:
  assumes "readDirectory lc fs p = Inr s"
  shows "(parentPath s = None) = (segments_of p = []) \<and>
         (segments_of p = [] \<longrightarrow> absolutePath s = basePath s) \<and>
         (segments_of p \<noteq> [] \<longrightarrow>
            parentPath s = Some (path (breadcrumbs s ! (length (breadcrumbs s) - 2))) \<and>
            parentPath s = Some (join_segments (butlast (segments_of p)))) \<and>
         (p = [] \<longrightarrow> parentPath s = None)"
proof -
  let ?n = "length (segments_of p)"
  from assms obtain a listed where a: "resolvePath p = Inr a"
    and s: "s = \<lparr>basePath = BASE_DIRECTORY, requestedPath = p, absolutePath = a,
              parentPath = (if 1 < length (buildBreadcrumbs p)
                            then Some (path (buildBreadcrumbs p ! (length (buildBreadcrumbs p) - 2)))
                            else None),
              breadcrumbs = buildBreadcrumbs p,
              entries = array_sort (compareEntries lc) listed\<rparr>"
    by (rule readDirectory_Inr)
  have none: "(parentPath s = None) = (segments_of p = [])"
    by (simp add: s length_buildBreadcrumbs)
  have base: "absolutePath s = basePath s" if "segments_of p = []"
    using resolvePath_no_segments [OF that] a by (simp add: s)
  have crumb: "parentPath s = Some (path (breadcrumbs s ! (length (breadcrumbs s) - 2)))"
    if "segments_of p \<noteq> []"
    using that by (simp add: s length_buildBreadcrumbs)
  have joined: "path (buildBreadcrumbs p ! (length (buildBreadcrumbs p) - 2)) =
                join_segments (butlast (segments_of p))" if ne: "segments_of p \<noteq> []"
  proof (cases "?n = 1")
    case True
    then obtain x where "segments_of p = [x]"
      by (cases "segments_of p") auto
    then show ?thesis by (simp add: buildBreadcrumbs_eq)
  next
    case False
    moreover from ne have "?n \<noteq> 0" by simp
    ultimately have n: "2 \<le> ?n" by arith
    then have i: "length (buildBreadcrumbs p) - 2 = Suc (?n - 2)" and k: "?n - 2 < ?n"
      by (simp_all add: length_buildBreadcrumbs)
    have "buildBreadcrumbs p ! Suc (?n - 2) =
               \<lparr>label = segments_of p ! (?n - 2),
                path = join_segments (take (Suc (?n - 2)) (segments_of p))\<rparr>"
      unfolding buildBreadcrumbs_eq [of p] using k by simp
    moreover have "Suc (?n - 2) = ?n - 1" using n by simp
    ultimately show ?thesis by (simp add: i butlast_conv_take)
  qed
  have root: "parentPath s = None" if "p = []"
    using that none by (simp add: segments_of_def)
  show ?thesis
    using none base crumb joined root by (simp add: s)
qed

theorem parentPath_null_iff_no_segments_witness:
  "readDirectory codeUnitCompare sample_fs ''A/inner'' =
     Inr \<lparr>basePath = ''/dp-apps'', requestedPath = ''A/inner'',
          absolutePath = ''/dp-apps/A/inner'', parentPath = Some ''A'',
          breadcrumbs =
            [\<lparr>label = ''dp-apps'', path = []\<rparr>, \<lparr>label = ''A'', path = ''A''\<rparr>,
             \<lparr>label = ''inner'', path = ''A/inner''\<rparr>],
          entries = []\<rparr> \<and>
   segments_of ''A/inner'' = [''A'', ''inner''] \<and>
   join_segments (butlast (segments_of ''A/inner'')) = ''A'' \<and>
   readDirectory codeUnitCompare sample_fs [] = Inr sample_root \<and>
   segments_of [] = [] \<and> parentPath sample_root = None \<and>
   absolutePath sample_root = basePath sample_root"
proof -
  have inner: "readDirectory codeUnitCompare sample_fs ''A/inner'' =
     Inr \<lparr>basePath = ''/dp-apps'', requestedPath = ''A/inner'',
          absolutePath = ''/dp-apps/A/inner'', parentPath = Some ''A'',
          breadcrumbs =
            [\<lparr>label = ''dp-apps'', path = []\<rparr>, \<lparr>label = ''A'', path = ''A''\<rparr>,
             \<lparr>label = ''inner'', path = ''A/inner''\<rparr>],
          entries = []\<rparr>"
    by code_simp
  have segs: "segments_of ''A/inner'' = [''A'', ''inner'']" "segments_of [] = []"
    by (simp_all add: segments_of_def)
  show ?thesis
    using parentPath_null_iff_no_segments [OF inner]
      parentPath_null_iff_no_segments [OF sample_root_snapshot]
      inner segs sample_root_snapshot
    by simp
qed

text \<open>
  Claim C4 as stated fails: the request \<open>"."\<close> resolves to the base directory itself,
  and the snapshot's \<open>parentPath\<close> is \<open>""\<close>, not null.
\<close>

theorem parentPath_of_dot_request:
  "resolvePath ''.'' = Inr BASE_DIRECTORY \<and>
   readDirectory codeUnitCompare sample_fs ''.'' =
     Inr (sample_root\<lparr>requestedPath := ''.'', parentPath := Some [],
            breadcrumbs := [\<lparr>label = ''dp-apps'', path = []\<rparr>,
                            \<lparr>label = ''.'', path = ''.''\<rparr>]\<rparr>)"
  by code_simp

subsection \<open>The order of the entries\<close>

text \<open>
  Claim C5: in every snapshot all directories come before all files, and within each
  group the names ascend in the collation of \<^verbatim>\<open>localeCompare\<close>; the order is stable, so
  entries that compare equal keep the order of the listing; and the children \<open>b.txt\<close>,
  \<open>A\<close>, \<open>a.txt\<close>, \<open>B\<close>, of which \<open>A\<close> and \<open>B\<close> are directories, come out as \<open>A\<close>,
  \<open>B\<close>, \<open>a.txt\<close>, \<open>b.txt\<close>. The collation is a consistent comparator, and in the
  example it puts \<open>A\<close> before \<open>B\<close> and \<open>a.txt\<close> before \<open>b.txt\<close>. The order is
  that of a function of the listing and the collation, so it is deterministic.
\<close>

theorem entries_sorted_directories_first:
  assumes "consistent_comparator lc" and "readDirectory lc fs p = Inr s"
  shows "sorted_wrt (\<lambda>a b. (type a = Directory \<or> type b = File) \<and>
                           (type a = type b \<longrightarrow> lc (name a) (name b) \<le> 0)) (entries s) \<and>
         (\<exists>listed. listEntries fs (absolutePath s) = Inr listed \<and>
            entries s = array_sort (compareEntries lc) listed \<and>
            (\<forall>k. filter (\<lambda>e. compareEntries lc k e = 0) (entries s) =
                 filter (\<lambda>e. compareEntries lc k e = 0) listed)) \<and>
         ((\<exists>ds. readdir fs (absolutePath s) = Inr ds \<and>
                map (\<lambda>d. (dirent_name d, isDirectory d)) ds =
                  [(''b.txt'', False), (''A'', True), (''a.txt'', False), (''B'', True)]) \<and>
          lc ''A'' ''B'' < 0 \<and> lc ''a.txt'' ''b.txt'' < 0 \<longrightarrow>
          map name (entries s) = [''A'', ''B'', ''a.txt'', ''b.txt''])"
proof -
  from assms(2) obtain a listed where l: "listEntries fs a = Inr listed"
    and s: "absolutePath s = a" "entries s = array_sort (compareEntries lc) listed"
    by (auto elim!: readDirectory_Inr)
  have cmp: "consistent_comparator (compareEntries lc)"
    using assms(1) by (rule consistent_compareEntries)
  have "sorted_wrt (\<lambda>a b. compareEntries lc a b \<le> 0) (entries s)"
    unfolding s using cmp by (rule sorted_array_sort)
  moreover have "(type x = Directory \<or> type y = File) \<and>
                 (type x = type y \<longrightarrow> lc (name x) (name y) \<le> 0)"
    if "compareEntries lc x y \<le> 0" for x y
    using that by (cases "type x"; cases "type y") (auto simp: compareEntries_def)
  ultimately have sorted:
    "sorted_wrt (\<lambda>a b. (type a = Directory \<or> type b = File) \<and>
                        (type a = type b \<longrightarrow> lc (name a) (name b) \<le> 0)) (entries s)"
    by (rule sorted_wrt_mono_rel [rotated]) blast
  have stable: "\<forall>k. filter (\<lambda>e. compareEntries lc k e = 0) (entries s) =
                    filter (\<lambda>e. compareEntries lc k e = 0) listed"
    unfolding s using array_sort_stable [OF cmp] by blast
  have example: "map name (entries s) = [''A'', ''B'', ''a.txt'', ''b.txt'']"
    if ds: "readdir fs (absolutePath s) = Inr ds"
      and children: "map (\<lambda>d. (dirent_name d, isDirectory d)) ds =
                  [(''b.txt'', False), (''A'', True), (''a.txt'', False), (''B'', True)]"
      and ab: "lc ''A'' ''B'' < 0" and lt: "lc ''a.txt'' ''b.txt'' < 0" for ds
  proof -
    from l obtain ds' where "readdir fs a = Inr ds'"
      and rel: "list_all2 (\<lambda>d e. toEntry fs a d = Inr e) ds' listed"
      by (rule listEntries_Inr)
    with ds s(1) have "ds' = ds" by simp
    with rel have rel': "list_all2 (\<lambda>d e. toEntry fs a d = Inr e) ds listed" by simp
    from children obtain d1 d2 d3 d4 where dsl: "ds = [d1, d2, d3, d4]"
      and d: "dirent_name d1 = ''b.txt''" "\<not> isDirectory d1"
             "dirent_name d2 = ''A''" "isDirectory d2"
             "dirent_name d3 = ''a.txt''" "\<not> isDirectory d3"
             "dirent_name d4 = ''B''" "isDirectory d4"
      by (auto simp: map_eq_Cons_conv)
    from rel' dsl obtain e1 e2 e3 e4 where el: "listed = [e1, e2, e3, e4]"
      and e: "toEntry fs a d1 = Inr e1" "toEntry fs a d2 = Inr e2"
             "toEntry fs a d3 = Inr e3" "toEntry fs a d4 = Inr e4"
      by (auto simp: list_all2_Cons1)
    have n: "name e1 = ''b.txt''" "name e2 = ''A''" "name e3 = ''a.txt''" "name e4 = ''B''"
      and t: "type e1 = File" "type e2 = Directory" "type e3 = File" "type e4 = Directory"
      using e d by (simp_all add: toEntry_Inr)
    have "0 < lc ''b.txt'' ''a.txt''"
      using assms(1) lt unfolding consistent_comparator_def by blast
    then have c13: "\<not> compareEntries lc e1 e3 \<le> 0"
      by (simp add: compareEntries_def n t)
    have c24: "compareEntries lc e2 e4 \<le> 0"
      using ab by (simp add: compareEntries_def n t)
    have c34: "\<not> compareEntries lc e3 e4 \<le> 0" and c12: "\<not> compareEntries lc e1 e2 \<le> 0"
      and c14: "\<not> compareEntries lc e1 e4 \<le> 0"
      by (simp_all add: compareEntries_def n t)
    have "array_sort (compareEntries lc) listed = [e2, e4, e3, e1]"
      by (simp add: el c13 c24 c34 c12 c14)
    then show ?thesis by (simp add: s n)
  qed
  have listing: "listEntries fs (absolutePath s) = Inr listed"
    using l s(1) by simp
  show ?thesis
  proof (intro conjI impI)
    show "sorted_wrt (\<lambda>a b. (type a = Directory \<or> type b = File) \<and>
                           (type a = type b \<longrightarrow> lc (name a) (name b) \<le> 0)) (entries s)"
      by (rule sorted)
    show "\<exists>listed. listEntries fs (absolutePath s) = Inr listed \<and>
            entries s = array_sort (compareEntries lc) listed \<and>
            (\<forall>k. filter (\<lambda>e. compareEntries lc k e = 0) (entries s) =
                 filter (\<lambda>e. compareEntries lc k e = 0) listed)"
      using listing s(2) stable by (intro exI [of _ listed] conjI)
  next
    assume "(\<exists>ds. readdir fs (absolutePath s) = Inr ds \<and>
                map (\<lambda>d. (dirent_name d, isDirectory d)) ds =
                  [(''b.txt'', False), (''A'', True), (''a.txt'', False), (''B'', True)]) \<and>
          lc ''A'' ''B'' < 0 \<and> lc ''a.txt'' ''b.txt'' < 0"
    then show "map name (entries s) = [''A'', ''B'', ''a.txt'', ''b.txt'']"
      by (elim conjE exE) (rule example)
  qed
qed

theorem entries_sorted_directories_first_witness:
  "consistent_comparator codeUnitCompare \<and>
   readDirectory codeUnitCompare sample_fs [] = Inr sample_root \<and>
   readdir sample_fs (absolutePath sample_root) =
     Inr [\<lparr>dirent_name = ''b.txt'', isDirectory = False\<rparr>,
          \<lparr>dirent_name = ''A'', isDirectory = True\<rparr>,
          \<lparr>dirent_name = ''a.txt'', isDirectory = False\<rparr>,
          \<lparr>dirent_name = ''B'', isDirectory = True\<rparr>] \<and>
   codeUnitCompare ''A'' ''B'' < 0 \<and> codeUnitCompare ''a.txt'' ''b.txt'' < 0 \<and>
   sorted_wrt (\<lambda>a b. (type a = Directory \<or> type b = File) \<and>
                      (type a = type b \<longrightarrow> codeUnitCompare (name a) (name b) \<le> 0))
     (entries sample_root) \<and>
   map name (entries sample_root) = [''A'', ''B'', ''a.txt'', ''b.txt'']"
proof -
  have children: "readdir sample_fs (absolutePath sample_root) =
     Inr [\<lparr>dirent_name = ''b.txt'', isDirectory = False\<rparr>,
          \<lparr>dirent_name = ''A'', isDirectory = True\<rparr>,
          \<lparr>dirent_name = ''a.txt'', isDirectory = False\<rparr>,
          \<lparr>dirent_name = ''B'', isDirectory = True\<rparr>]"
    by code_simp
  have ab: "codeUnitCompare ''A'' ''B'' < 0" and lt: "codeUnitCompare ''a.txt'' ''b.txt'' < 0"
    by code_simp+
  have ex: "\<exists>ds. readdir sample_fs (absolutePath sample_root) = Inr ds \<and>
                map (\<lambda>d. (dirent_name d, isDirectory d)) ds =
                  [(''b.txt'', False), (''A'', True), (''a.txt'', False), (''B'', True)]"
    using children by simp
  note t = entries_sorted_directories_first [OF consistent_codeUnitCompare sample_root_snapshot]
  from t have sorted: "sorted_wrt (\<lambda>a b. (type a = Directory \<or> type b = File) \<and>
                      (type a = type b \<longrightarrow> codeUnitCompare (name a) (name b) \<le> 0))
     (entries sample_root)"
    by (rule conjunct1)
  from t have "(\<exists>ds. readdir sample_fs (absolutePath sample_root) = Inr ds \<and>
                map (\<lambda>d. (dirent_name d, isDirectory d)) ds =
                  [(''b.txt'', False), (''A'', True), (''a.txt'', False), (''B'', True)]) \<and>
          codeUnitCompare ''A'' ''B'' < 0 \<and> codeUnitCompare ''a.txt'' ''b.txt'' < 0 \<longrightarrow>
          map name (entries sample_root) = [''A'', ''B'', ''a.txt'', ''b.txt'']"
    by (elim conjE)
  then have names: "map name (entries sample_root) = [''A'', ''B'', ''a.txt'', ''b.txt'']"
    using ex ab lt by (elim impE) (intro conjI)
  show ?thesis
    using consistent_codeUnitCompare sample_root_snapshot children ab lt sorted names
    by (intro conjI)
qed

subsection \<open>Breadcrumbs\<close>


subsection \<open>Failures\<close>

text \<open>
  Claim C7: when the directory at the resolved path cannot be read (it does not exist,
  is not a directory or is inaccessible), and also when the metadata of any single
  child cannot be read, \<open>readDirectory\<close> fails with \<open>ReadError\<close>: no snapshot is
  returned, so no listing with entries left out.
\<close>

theorem read_failure_fails_whole_snapshot:
  assumes "resolvePath p = Inr a"
    and "(\<exists>m. readdir fs a = Inl m) \<or>
         (\<exists>ds. readdir fs a = Inr ds \<and>
           (\<exists>d\<in>set ds. \<exists>m. stat fs (path_join [a, dirent_name d]) = Inl m))"
  shows "\<exists>m. readDirectory lc fs p = Inl (ReadError m)"
proof -
  have "\<exists>m. listEntries fs a = Inl m"
    using assms(2)
  proof
    assume "\<exists>m. readdir fs a = Inl m"
    then show ?thesis by (auto simp: listEntries_def)
  next
    assume "\<exists>ds. readdir fs a = Inr ds \<and>
           (\<exists>d\<in>set ds. \<exists>m. stat fs (path_join [a, dirent_name d]) = Inl m)"
    then obtain ds d m where ds: "readdir fs a = Inr ds" and d: "d \<in> set ds"
      and m: "stat fs (path_join [a, dirent_name d]) = Inl m" by blast
    from m have "toEntry fs a d = Inl m" by (simp add: toEntry_Inl)
    with d have "\<exists>m'. promise_all (toEntry fs a) ds = Inl m'"
      by (rule promise_all_Inl)
    then show ?thesis
      using ds by (simp add: listEntries_def)
  qed
  then show ?thesis
    using assms(1) by (auto simp: readDirectory_def)
qed

theorem read_failure_fails_whole_snapshot_witness:
  "resolvePath ''missing'' = Inr ''/dp-apps/missing'' \<and>
   readdir sample_fs ''/dp-apps/missing'' = Inl (enoent ''scandir'' ''/dp-apps/missing'') \<and>
   (\<exists>m. readDirectory codeUnitCompare sample_fs ''missing'' = Inl (ReadError m)) \<and>
   resolvePath ''B'' = Inr ''/dp-apps/B'' \<and>
   readdir sample_fs ''/dp-apps/B'' = Inr [\<lparr>dirent_name = ''gone.txt'', isDirectory = False\<rparr>] \<and>
   stat sample_fs (path_join [''/dp-apps/B'', ''gone.txt'']) =
     Inl (enoent ''stat'' ''/dp-apps/B/gone.txt'') \<and>
   (\<exists>m. readDirectory codeUnitCompare sample_fs ''B'' = Inl (ReadError m))"
proof -
  have r1: "resolvePath ''missing'' = Inr ''/dp-apps/missing''" by code_simp
  have d1: "readdir sample_fs ''/dp-apps/missing'' = Inl (enoent ''scandir'' ''/dp-apps/missing'')"
    by code_simp
  have r2: "resolvePath ''B'' = Inr ''/dp-apps/B''" by code_simp
  have d2: "readdir sample_fs ''/dp-apps/B'' =
              Inr [\<lparr>dirent_name = ''gone.txt'', isDirectory = False\<rparr>]"
    by code_simp
  have s2: "stat sample_fs (path_join [''/dp-apps/B'', ''gone.txt'']) =
              Inl (enoent ''stat'' ''/dp-apps/B/gone.txt'')"
    by code_simp
  have h1: "(\<exists>m. readdir sample_fs ''/dp-apps/missing'' = Inl m) \<or>
         (\<exists>ds. readdir sample_fs ''/dp-apps/missing'' = Inr ds \<and>
           (\<exists>d\<in>set ds. \<exists>m. stat sample_fs
              (path_join [''/dp-apps/missing'', dirent_name d]) = Inl m))"
    using d1 by simp
  have h2: "(\<exists>m. readdir sample_fs ''/dp-apps/B'' = Inl m) \<or>
         (\<exists>ds. readdir sample_fs ''/dp-apps/B'' = Inr ds \<and>
           (\<exists>d\<in>set ds. \<exists>m. stat sample_fs (path_join [''/dp-apps/B'', dirent_name d]) = Inl m))"
    using d2 s2 by simp
  show ?thesis
    using r1 d1 r2 d2 s2
      read_failure_fails_whole_snapshot [OF r1 h1, of codeUnitCompare]
      read_failure_fails_whole_snapshot [OF r2 h2, of codeUnitCompare]
    by simp
qed

text \<open>
  Claim C8: a request that fails the containment check fails with \<open>OutOfBoundsError\<close>
  before the file system is touched, so that an out-of-bounds request has the same
  outcome, \<open>OutOfBoundsError\<close>, in every state of the file system.

  The code does not for the request \<^verbatim>\<open>../dp-apps-evil\<close>, whose resolved path
  \<^verbatim>\<open>/dp-apps-evil\<close> is outside the base directory: the directory is read, the outcome
  is the listing where it exists and the file system's error where it does not. The
  defect is the one of claim C1.
\<close>

theorem sibling_request_reaches_filesystem:
  "spec_resolved ''../dp-apps-evil'' = ''/dp-apps-evil'' \<and>
   \<not> spec_inside_base ''/dp-apps-evil'' \<and>
   readDirectory codeUnitCompare empty_fs ''../dp-apps-evil'' =
     Inl (ReadError (enoent ''scandir'' ''/dp-apps-evil'')) \<and>
   readDirectory codeUnitCompare sample_fs ''../dp-apps-evil'' \<noteq>
     readDirectory codeUnitCompare empty_fs ''../dp-apps-evil''"
  by code_simp

subsection \<open>The entries\<close>

text \<open>
  Claim C9: the entries of a snapshot are a permutation of the immediate children of
  the resolved directory, one entry per listed child, none left out and none twice:
  the entry of a child carries the child's name, the child's path relative to the base
  directory, and the type \<open>directory\<close> for a directory and \<open>file\<close> otherwise.
\<close>

theorem entries_permutation_of_children:
  assumes "readDirectory lc fs p = Inr s"
  shows "\<exists>ds. readdir fs (absolutePath s) = Inr ds \<and>
          length (entries s) = length ds \<and>
          mset (map (\<lambda>e. (name e, relativePath e, type e)) (entries s)) =
          mset (map (\<lambda>d. (dirent_name d,
                           path_relative (basePath s) (path_join [absolutePath s, dirent_name d]),
                           if isDirectory d then Directory else File)) ds)"
proof -
  from assms obtain a listed where a: "resolvePath p = Inr a"
    and l: "listEntries fs a = Inr listed"
    and s: "absolutePath s = a" "basePath s = BASE_DIRECTORY"
           "entries s = array_sort (compareEntries lc) listed"
    by (auto elim!: readDirectory_Inr)
  from l obtain ds where ds: "readdir fs a = Inr ds"
    and rel: "list_all2 (\<lambda>d e. toEntry fs a d = Inr e) ds listed"
    by (rule listEntries_Inr)
  have "mset (map (\<lambda>e. (name e, relativePath e, type e)) (entries s)) =
        mset (map (\<lambda>e. (name e, relativePath e, type e)) listed)"
    by (simp add: s mset_array_sort)
  moreover have "length (entries s) = length ds"
    using list_all2_lengthD [OF rel] mset_array_sort [of "compareEntries lc" listed]
    by (metis s(3) size_mset)
  ultimately show ?thesis
    using ds listed_projection [OF rel] s by auto
qed

theorem entries_permutation_of_children_witness:
  "readDirectory codeUnitCompare sample_fs ''A'' =
     Inr \<lparr>basePath = ''/dp-apps'', requestedPath = ''A'', absolutePath = ''/dp-apps/A'',
          parentPath = Some [],
          breadcrumbs = [\<lparr>label = ''dp-apps'', path = []\<rparr>, \<lparr>label = ''A'', path = ''A''\<rparr>],
          entries = [sample_entry ''inner'' ''A/inner'' Directory]\<rparr> \<and>
   readDirectory codeUnitCompare sample_fs [] = Inr sample_root \<and>
   (\<exists>ds. readdir sample_fs (absolutePath sample_root) = Inr ds \<and>
          length (entries sample_root) = length ds \<and>
          mset (map (\<lambda>e. (name e, relativePath e, type e)) (entries sample_root)) =
          mset (map (\<lambda>d. (dirent_name d,
                           path_relative (basePath sample_root)
                             (path_join [absolutePath sample_root, dirent_name d]),
                           if isDirectory d then Directory else File)) ds))"
proof -
  have "readDirectory codeUnitCompare sample_fs ''A'' =
     Inr \<lparr>basePath = ''/dp-apps'', requestedPath = ''A'', absolutePath = ''/dp-apps/A'',
          parentPath = Some [],
          breadcrumbs = [\<lparr>label = ''dp-apps'', path = []\<rparr>, \<lparr>label = ''A'', path = ''A''\<rparr>],
          entries = [sample_entry ''inner'' ''A/inner'' Directory]\<rparr>"
    by code_simp
  then show ?thesis
    using sample_root_snapshot entries_permutation_of_children [OF sample_root_snapshot]
    by (intro conjI)
qed

text \<open>
  Claim C10: a request for an existing directory without children succeeds, and the
  snapshot's entries are the empty sequence.
\<close>

theorem empty_directory_succeeds:
  assumes "resolvePath p = Inr a" and "readdir fs a = Inr []"
  shows "\<exists>s. readDirectory lc fs p = Inr s \<and> entries s = []"
proof -
  have "listEntries fs a = Inr []"
    using assms(2) by (simp add: listEntries_def)
  then show ?thesis
    using readDirectory_success [OF assms(1), of fs "[]" lc] by simp
qed

theorem empty_directory_succeeds_witness:
  "resolvePath ''A/inner'' = Inr ''/dp-apps/A/inner'' \<and>
   readdir sample_fs ''/dp-apps/A/inner'' = Inr [] \<and>
   (\<exists>s. readDirectory codeUnitCompare sample_fs ''A/inner'' = Inr s \<and> entries s = [])"
proof -
  have r: "resolvePath ''A/inner'' = Inr ''/dp-apps/A/inner''" by code_simp
  have d: "readdir sample_fs ''/dp-apps/A/inner'' = Inr []" by code_simp
  show ?thesis
    using r d empty_directory_succeeds [OF r d, of codeUnitCompare] by simp
qed

end
